theory Spec2Isabelle
  imports Main
begin

section \<open>Status history: filter validation, sliding window and cycle squashing\<close>

text \<open>
  A shallow embedding of \<^verbatim>\<open>status/status_history.go\<close>. Go's \<^verbatim>\<open>int\<close> is modelled by
  \<open>int\<close>: the only arithmetic on it is \<^verbatim>\<open>i + cycleSize\<close>, \<^verbatim>\<open>i + 1\<close> and \<^verbatim>\<open>repeat++\<close>, and
  past the short-circuit both \<^verbatim>\<open>i\<close> and \<^verbatim>\<open>cycleSize\<close> are below the length of a slice held in
  memory, so none of these sums reaches the 64-bit limit in a run that returns. A slice is
  a list (its capacity is taken to be its length), a nil pointer is \<open>None\<close>, a runtime panic
  is the \<open>Inl\<close> branch of a sum, and a call that does not return is \<open>None\<close> of the
  outer \<open>option\<close>.
\<close>

subsection \<open>Data model\<close>

type_synonym time = int
type_synonym duration = int

text \<open>
  Modelled from the spec: the type \<^verbatim>\<open>Status\<close> and its constant \<^verbatim>\<open>Idle\<close> are declared in a
  file of the package that is not at hand; the spec calls the marker's status
  idle/quiescent. A status is a string, as \<^verbatim>\<open>HistoryKind\<close> is.
\<close>

type_synonym Status = string

definition Idle :: Status where
  "Idle = ''idle''"

type_synonym HistoryKind = string

text \<open>\<^verbatim>\<open>errors.NotValidf(msg)\<close>: a not-valid error carrying its message.\<close>

datatype error = NotValid string

datatype panic = IndexOutOfRange | SliceBoundsOutOfRange

record StatusHistoryFilter =
  Size :: int
  FromDate :: "time option"
  Delta :: "duration option"
  Exclude :: "string set"

text \<open>
  \<^verbatim>\<open>DetailedStatus\<close>. The values of the \<^verbatim>\<open>Data\<close> map are of Go's empty interface type, here
  the type parameter \<open>'v\<close>; \<^verbatim>\<open>Err\<close> holds the message of the error, if any.
\<close>

record 'v DetailedStatus =
  Status :: Status
  Info :: string
  Data :: "string \<rightharpoonup> 'v"
  Since :: "time option"
  Kind :: HistoryKind
  Version :: string
  Life :: string
  Err :: "string option"

type_synonym 'v History = "'v DetailedStatus list"

subsection \<open>Validate\<close>

definition Validate :: "StatusHistoryFilter \<Rightarrow> error option" where
  "Validate f =
     (let s = Size f > 0;
          t = FromDate f \<noteq> None;
          d = Delta f \<noteq> None
      in if \<not> (s \<or> t \<or> d) then Some (NotValid ''missing filter parameters'')
         else if s \<and> t then Some (NotValid ''Size and Date together'')
         else if s \<and> d then Some (NotValid ''Size and Delta together'')
         else if t \<and> d then Some (NotValid ''Date and Delta together'')
         else None)"

subsection \<open>Indexing and slicing, with Go's bounds checks\<close>

definition index :: "'a list \<Rightarrow> int \<Rightarrow> panic + 'a" where
  "index xs i = (if 0 \<le> i \<and> i < int (length xs) then Inr (xs ! nat i) else Inl IndexOutOfRange)"

definition store :: "'a list \<Rightarrow> int \<Rightarrow> 'a \<Rightarrow> panic + 'a list" where
  "store xs i v = (if 0 \<le> i \<and> i < int (length xs) then Inr (xs[nat i := v]) else Inl IndexOutOfRange)"

text \<open>\<^verbatim>\<open>xs[lo:hi]\<close>; \<^verbatim>\<open>xs[lo:]\<close> is \<open>slice xs lo (int (length xs))\<close>.\<close>

definition slice :: "'a list \<Rightarrow> int \<Rightarrow> int \<Rightarrow> panic + 'a list" where
  "slice xs lo hi =
     (if 0 \<le> lo \<and> lo \<le> hi \<and> hi \<le> int (length xs)
      then Inr (take (nat (hi - lo)) (drop (nat lo) xs))
      else Inl SliceBoundsOutOfRange)"

subsection \<open>push\<close>

text \<open>The loop \<^verbatim>\<open>for i := 0; i < len(ch)-1; i++ { ch[i] = ch[i+1] }\<close>.\<close>

function push_shift :: "'a list \<Rightarrow> int \<Rightarrow> panic + 'a list" where
  "push_shift ch i =
     (if i < int (length ch) - 1
      then (case index ch (i + 1) of
              Inl e \<Rightarrow> Inl e
            | Inr x \<Rightarrow> (case store ch i x of
                         Inl e \<Rightarrow> Inl e
                       | Inr ch' \<Rightarrow> push_shift ch' (i + 1)))
      else Inr ch)"
  by pat_completeness auto
termination
  by (relation "measure (\<lambda>(ch, i). nat (int (length ch) - 1 - i))")
     (auto simp: store_def split: if_splits)

declare push_shift.simps [simp del]

text \<open>
  \<^verbatim>\<open>push\<close> returns the evicted record together with the window as the call leaves it (the
  receiver is a pointer to the slice, whose array is written in place).
\<close>

definition push :: "'a list \<Rightarrow> 'a \<Rightarrow> panic + ('a \<times> 'a list)" where
  "push ch new =
     (case index ch 0 of
        Inl e \<Rightarrow> Inl e
      | Inr old \<Rightarrow>
          (case push_shift ch 0 of
             Inl e \<Rightarrow> Inl e
           | Inr ch1 \<Rightarrow>
               (case store ch1 (int (length ch1) - 1) new of
                  Inl e \<Rightarrow> Inl e
                | Inr ch2 \<Rightarrow> Inr (old, ch2))))"

subsection \<open>fmt.Sprintf with the verb %d\<close>

definition digit_char :: "nat \<Rightarrow> char" where
  "digit_char d = ''0123456789'' ! d"

function show_nat :: "nat \<Rightarrow> string" where
  "show_nat n = (if n < 10 then [digit_char n] else show_nat (n div 10) @ [digit_char (n mod 10)])"
  by pat_completeness auto
termination
  by (relation "measure id") auto

declare show_nat.simps [simp del]

definition show_int :: "int \<Rightarrow> string" where
  "show_int i = (if i < 0 then CHR ''-'' # show_nat (nat (- i)) else show_nat (nat i))"

text \<open>\<^verbatim>\<open>fmt.Sprintf("last %d statuses repeated %d times", cycleSize, repeat)\<close>\<close>

definition rstatus :: "int \<Rightarrow> int \<Rightarrow> string" where
  "rstatus cycleSize repeat =
     ''last '' @ show_int cycleSize @ '' statuses repeated '' @ show_int repeat @ '' times''"

subsection \<open>SquashLogs\<close>

text \<open>The seeding loop \<^verbatim>\<open>for i := 0; i < cycleSize; i++ { buffer = append(buffer, statuses[i]) }\<close>.\<close>

function seed_buffer :: "'a list \<Rightarrow> int \<Rightarrow> 'a list \<Rightarrow> int \<Rightarrow> panic + 'a list" where
  "seed_buffer statuses cycleSize buffer i =
     (if i < cycleSize
      then (case index statuses i of
              Inl e \<Rightarrow> Inl e
            | Inr x \<Rightarrow> seed_buffer statuses cycleSize (buffer @ [x]) (i + 1))
      else Inr buffer)"
  by pat_completeness auto
termination
  by (relation "measure (\<lambda>(statuses, cycleSize, buffer, i). nat (cycleSize - i))") auto

declare seed_buffer.simps [simp del]

text \<open>
  The comparison loop \<^verbatim>\<open>for j := range subset\<close> (the slice \<^verbatim>\<open>subset\<close> is named
  \<open>chunk\<close> here): \<^verbatim>\<open>repetition\<close> starts true and is cleared by every position where the
  status or the info differ.
\<close>

function is_repetition ::
  "'v History \<Rightarrow> 'v History \<Rightarrow> int \<Rightarrow> bool \<Rightarrow> panic + bool" where
  "is_repetition chunk buffer j repetition =
     (if j < int (length chunk)
      then (case index chunk j of
              Inl e \<Rightarrow> Inl e
            | Inr s \<Rightarrow> (case index buffer j of
                         Inl e \<Rightarrow> Inl e
                       | Inr b \<Rightarrow>
                           is_repetition chunk buffer (j + 1)
                             (if Status s \<noteq> Status b \<or> Info s \<noteq> Info b then False
                              else repetition)))
      else Inr repetition)"
  by pat_completeness auto
termination
  by (relation "measure (\<lambda>(chunk, buffer, j, repetition). nat (int (length chunk) - j))") auto

declare is_repetition.simps [simp del]

text \<open>
  The loop \<^verbatim>\<open>for j := 0; j < cycleSize; j++ { result = append(result, buffer.push(subset[j])) }\<close>
  that ends a run of repetitions.
\<close>

function push_subset ::
  "'a list \<Rightarrow> int \<Rightarrow> 'a list \<Rightarrow> 'a list \<Rightarrow> int \<Rightarrow> panic + ('a list \<times> 'a list)" where
  "push_subset chunk cycleSize buffer result j =
     (if j < cycleSize
      then (case index chunk j of
              Inl e \<Rightarrow> Inl e
            | Inr s \<Rightarrow> (case push buffer s of
                         Inl e \<Rightarrow> Inl e
                       | Inr (old, buffer') \<Rightarrow>
                           push_subset chunk cycleSize buffer' (result @ [old]) (j + 1)))
      else Inr (buffer, result))"
  by pat_completeness auto
termination
  by (relation "measure (\<lambda>(chunk, cycleSize, buffer, result, j). nat (cycleSize - j))") auto

declare push_subset.simps [simp del]

text \<open>The loop \<^verbatim>\<open>for j := 0; j < cycleSize; j++ { result = append(result, buffer[j]) }\<close>.\<close>

function flush_buffer :: "'a list \<Rightarrow> int \<Rightarrow> 'a list \<Rightarrow> int \<Rightarrow> panic + 'a list" where
  "flush_buffer buffer cycleSize result j =
     (if j < cycleSize
      then (case index buffer j of
              Inl e \<Rightarrow> Inl e
            | Inr b \<Rightarrow> flush_buffer buffer cycleSize (result @ [b]) (j + 1))
      else Inr result)"
  by pat_completeness auto
termination
  by (relation "measure (\<lambda>(buffer, cycleSize, result, j). nat (cycleSize - j))") auto

declare flush_buffer.simps [simp del]

text \<open>
  \<^verbatim>\<open>repeatStatus\<close> as it is declared: status idle, empty info, \<^verbatim>\<open>Since\<close> pointing to the
  clock reading \<^verbatim>\<open>now\<close>; every other field has its zero value.
\<close>

definition repeatStatus0 :: "time \<Rightarrow> 'v DetailedStatus" where
  "repeatStatus0 now =
     \<lparr>Status = Idle, Info = '''', Data = Map.empty, Since = Some now,
      Kind = '''', Version = '''', Life = '''', Err = None\<rparr>"

text \<open>
  The walk \<^verbatim>\<open>for i = cycleSize; i < len(statuses); { ... }\<close>. Its state is the buffer, the
  result, the repeat counter, the position \<^verbatim>\<open>i\<close> and \<^verbatim>\<open>repeatStatus\<close>; it returns the state
  at the exit of the loop. Nothing bounds the number of iterations for every
  \<^verbatim>\<open>cycleSize\<close>, so the walk is a partial function.
\<close>

partial_function (option) walk ::
  "'v History \<Rightarrow> int \<Rightarrow> 'v History \<Rightarrow> 'v History \<Rightarrow> int \<Rightarrow> int \<Rightarrow> 'v DetailedStatus \<Rightarrow>
   (panic + ('v History \<times> 'v History \<times> int \<times> int \<times> 'v DetailedStatus)) option" where
  "walk statuses cycleSize buffer result repeat i repeatStatus =
     (if \<not> i < int (length statuses) then Some (Inr (buffer, result, repeat, i, repeatStatus))
      else if i + cycleSize > int (length statuses)
      then Some (Inr (buffer, result, repeat, i, repeatStatus))
      else (case slice statuses i (i + cycleSize) of
              Inl e \<Rightarrow> Some (Inl e)
            | Inr chunk \<Rightarrow>
                (case is_repetition chunk buffer 0 True of
                   Inl e \<Rightarrow> Some (Inl e)
                 | Inr repetition \<Rightarrow>
                     if repetition
                     then walk statuses cycleSize buffer result (repeat + 1) (i + cycleSize)
                            repeatStatus
                     else if repeat > 0
                     then (case push_subset chunk cycleSize buffer result 0 of
                             Inl e \<Rightarrow> Some (Inl e)
                           | Inr (buffer', result') \<Rightarrow>
                               walk statuses cycleSize buffer'
                                 (result' @ [repeatStatus\<lparr>Info := rstatus cycleSize repeat\<rparr>])
                                 0 (i + cycleSize)
                                 (repeatStatus\<lparr>Info := rstatus cycleSize repeat\<rparr>))
                     else (case index statuses i of
                             Inl e \<Rightarrow> Some (Inl e)
                           | Inr s \<Rightarrow>
                               (case push buffer s of
                                  Inl e \<Rightarrow> Some (Inl e)
                                | Inr (old, buffer') \<Rightarrow>
                                    walk statuses cycleSize buffer' (result @ [old]) repeat
                                      (i + 1) repeatStatus)))))"

text \<open>
  What follows the walk: the buffer is flushed, a pending repetition gets its marker, and
  \<^verbatim>\<open>statuses[i+1:]\<close> is appended when \<^verbatim>\<open>i < len(statuses)-1\<close>.
\<close>

definition finish ::
  "'v History \<Rightarrow> int \<Rightarrow> 'v History \<Rightarrow> 'v History \<Rightarrow> int \<Rightarrow> int \<Rightarrow> 'v DetailedStatus \<Rightarrow>
   panic + 'v History" where
  "finish statuses cycleSize buffer result repeat i repeatStatus =
     (case flush_buffer buffer cycleSize result 0 of
        Inl e \<Rightarrow> Inl e
      | Inr result1 \<Rightarrow>
          (let result2 = (if repeat > 0
                          then result1 @ [repeatStatus\<lparr>Info := rstatus cycleSize repeat\<rparr>]
                          else result1)
           in if i < int (length statuses) - 1
              then (case slice statuses (i + 1) (int (length statuses)) of
                      Inl e \<Rightarrow> Inl e
                    | Inr rest \<Rightarrow> Inr (result2 @ rest))
              else Inr result2))"

text \<open>
  \<^verbatim>\<open>SquashLogs\<close>, with the reading of the clock (\<^verbatim>\<open>time.Now()\<close>) as the argument \<open>now\<close>.
\<close>

definition SquashLogs :: "'v History \<Rightarrow> int \<Rightarrow> time \<Rightarrow> (panic + 'v History) option" where
  "SquashLogs statuses cycleSize now =
     (if int (length statuses) \<le> cycleSize then Some (Inr statuses)
      else (case seed_buffer statuses cycleSize [] 0 of
              Inl e \<Rightarrow> Some (Inl e)
            | Inr buffer \<Rightarrow>
                (case walk statuses cycleSize buffer [] 0 cycleSize (repeatStatus0 now) of
                   None \<Rightarrow> None
                 | Some (Inl e) \<Rightarrow> Some (Inl e)
                 | Some (Inr (buffer', result, repeat, i, repeatStatus)) \<Rightarrow>
                     Some (finish statuses cycleSize buffer' result repeat i repeatStatus))))"

subsection \<open>HistoryKind\<close>

definition KindUnit :: HistoryKind where "KindUnit = ''unit''"
definition KindUnitAgent :: HistoryKind where "KindUnitAgent = ''juju-unit''"
definition KindWorkload :: HistoryKind where "KindWorkload = ''workload''"
definition KindMachineInstance :: HistoryKind where "KindMachineInstance = ''machine''"
definition KindMachine :: HistoryKind where "KindMachine = ''juju-machine''"
definition KindContainerInstance :: HistoryKind where "KindContainerInstance = ''container''"
definition KindContainer :: HistoryKind where "KindContainer = ''juju-container''"

definition Valid :: "HistoryKind \<Rightarrow> bool" where
  "Valid k =
     (if k = KindUnit \<or> k = KindUnitAgent \<or> k = KindWorkload \<or> k = KindMachineInstance \<or>
         k = KindMachine \<or> k = KindContainerInstance \<or> k = KindContainer
      then True else False)"

definition AllHistoryKind :: "HistoryKind \<rightharpoonup> string" where
  "AllHistoryKind =
     [KindUnit \<mapsto> ''statuses for specified unit and its workload'',
      KindUnitAgent \<mapsto> ''statuses from the agent that is managing a unit'',
      KindWorkload \<mapsto> ''statuses for unit's workload'',
      KindMachineInstance \<mapsto> ''statuses that occur due to provisioning of a machine'',
      KindMachine \<mapsto> ''status of the agent that is managing a machine'',
      KindContainerInstance \<mapsto> ''statuses from the agent that is managing containers'',
      KindContainer \<mapsto> ''statuses from the containers only and not their host machines'']"

subsection \<open>Notions used to state the properties\<close>

text \<open>
  The test of the comparison loop for one pair of records: the negation of
  \<^verbatim>\<open>subset[j].Status != buffer[j].Status || subset[j].Info != buffer[j].Info\<close>.
\<close>

definition matches :: "'v DetailedStatus \<Rightarrow> 'v DetailedStatus \<Rightarrow> bool" where
  "matches s b \<longleftrightarrow> Status s = Status b \<and> Info s = Info b"

text \<open>The records of \<^verbatim>\<open>statuses[i : i+cycleSize]\<close>, when the bounds are in range.\<close>

definition chunk_at :: "'a list \<Rightarrow> int \<Rightarrow> int \<Rightarrow> 'a list" where
  "chunk_at statuses i cycleSize = take (nat cycleSize) (drop (nat i) statuses)"


text \<open>A status record for the examples: only status, info and time vary.\<close>

definition entry :: "Status \<Rightarrow> string \<Rightarrow> time \<Rightarrow> string DetailedStatus" where
  "entry st info t =
     \<lparr>Status = st, Info = info, Data = Map.empty, Since = Some t,
      Kind = ''unit'', Version = '''', Life = ''alive'', Err = None\<rparr>"

section \<open>Properties\<close>

subsection \<open>Validate\<close>

text \<open>
  C4. \<^verbatim>\<open>Validate\<close> returns no error exactly when one and only one of \<open>Size > 0\<close>,
  \<open>FromDate\<close> set, \<open>Delta\<close> set holds. With none of them the error is "missing filter
  parameters"; with more than one it names a conflicting pair: Size and Date whenever both
  are set, Size and Delta when those two alone are set, Date and Delta when those two alone
  are set. The \<open>Exclude\<close> field has no influence on the result.
\<close>

theorem Validate_exactly_one:
  "(Validate f = None \<longleftrightarrow>
      (0 < Size f \<and> FromDate f = None \<and> Delta f = None) \<or>
      (\<not> 0 < Size f \<and> FromDate f \<noteq> None \<and> Delta f = None) \<or>
      (\<not> 0 < Size f \<and> FromDate f = None \<and> Delta f \<noteq> None)) \<and>
   (\<not> 0 < Size f \<and> FromDate f = None \<and> Delta f = None \<longrightarrow>
      Validate f = Some (NotValid ''missing filter parameters'')) \<and>
   (0 < Size f \<and> FromDate f \<noteq> None \<longrightarrow>
      Validate f = Some (NotValid ''Size and Date together'')) \<and>
   (0 < Size f \<and> FromDate f = None \<and> Delta f \<noteq> None \<longrightarrow>
      Validate f = Some (NotValid ''Size and Delta together'')) \<and>
   (\<not> 0 < Size f \<and> FromDate f \<noteq> None \<and> Delta f \<noteq> None \<longrightarrow>
      Validate f = Some (NotValid ''Date and Delta together'')) \<and>
   Validate (f\<lparr>Exclude := ex\<rparr>) = Validate f"
  by (simp add: Validate_def Let_def)

theorem Validate_exactly_one_witness:
  "Validate \<lparr>Size = 5, FromDate = None, Delta = None, Exclude = {}\<rparr> = None \<and>
   Validate \<lparr>Size = 0, FromDate = Some 7, Delta = None, Exclude = {}\<rparr> = None \<and>
   Validate \<lparr>Size = 0, FromDate = None, Delta = Some 60, Exclude = {''x''}\<rparr> = None \<and>
   Validate \<lparr>Size = 0, FromDate = None, Delta = None, Exclude = {}\<rparr> =
     Some (NotValid ''missing filter parameters'') \<and>
   Validate \<lparr>Size = 5, FromDate = Some 7, Delta = Some 60, Exclude = {}\<rparr> =
     Some (NotValid ''Size and Date together'') \<and>
   Validate \<lparr>Size = 5, FromDate = None, Delta = Some 60, Exclude = {}\<rparr> =
     Some (NotValid ''Size and Delta together'') \<and>
   Validate \<lparr>Size = - 1, FromDate = Some 7, Delta = Some 60, Exclude = {}\<rparr> =
     Some (NotValid ''Date and Delta together'')"
  using Validate_exactly_one [of "\<lparr>Size = 5, FromDate = None, Delta = None, Exclude = {}\<rparr>" "{}"]
    Validate_exactly_one [of "\<lparr>Size = 0, FromDate = Some 7, Delta = None, Exclude = {}\<rparr>" "{}"]
    Validate_exactly_one [of "\<lparr>Size = 0, FromDate = None, Delta = Some 60, Exclude = {''x''}\<rparr>" "{}"]
    Validate_exactly_one [of "\<lparr>Size = 0, FromDate = None, Delta = None, Exclude = {}\<rparr>" "{}"]
    Validate_exactly_one [of "\<lparr>Size = 5, FromDate = Some 7, Delta = Some 60, Exclude = {}\<rparr>" "{}"]
    Validate_exactly_one [of "\<lparr>Size = 5, FromDate = None, Delta = Some 60, Exclude = {}\<rparr>" "{}"]
    Validate_exactly_one [of "\<lparr>Size = - 1, FromDate = Some 7, Delta = Some 60, Exclude = {}\<rparr>" "{}"]
  by simp

subsection \<open>HistoryKind\<close>

lemmas kind_defs = KindUnit_def KindUnitAgent_def KindWorkload_def KindMachineInstance_def
  KindMachine_def KindContainerInstance_def KindContainer_def

text \<open>
  C10. \<^verbatim>\<open>Valid\<close> is true for exactly the seven kinds and false for every other string
  (true for "workload", false for "bogus"); the keys of \<^verbatim>\<open>AllHistoryKind\<close> are exactly those
  seven, every description is non-empty, and a kind is valid if and only if it is a key.
\<close>

theorem HistoryKind_Valid_AllHistoryKind:
  "(Valid k \<longleftrightarrow> k \<in> {''unit'', ''juju-unit'', ''workload'', ''machine'', ''juju-machine'',
                        ''container'', ''juju-container''}) \<and>
   Valid ''workload'' \<and> \<not> Valid ''bogus'' \<and>
   dom AllHistoryKind = {''unit'', ''juju-unit'', ''workload'', ''machine'', ''juju-machine'',
                        ''container'', ''juju-container''} \<and>
   card (dom AllHistoryKind) = 7 \<and>
   (\<forall>d. AllHistoryKind k = Some d \<longrightarrow> d \<noteq> '''') \<and>
   (Valid k \<longleftrightarrow> k \<in> dom AllHistoryKind)"
proof -
  have v: "Valid k \<longleftrightarrow> k \<in> {''unit'', ''juju-unit'', ''workload'', ''machine'', ''juju-machine'',
                        ''container'', ''juju-container''}" for k
    by (auto simp: Valid_def kind_defs)
  have d: "dom AllHistoryKind = {''unit'', ''juju-unit'', ''workload'', ''machine'',
      ''juju-machine'', ''container'', ''juju-container''}"
    by (auto simp: AllHistoryKind_def kind_defs)
  have c: "card (dom AllHistoryKind) = 7"
    by (simp add: d)
  have n: "\<forall>d. AllHistoryKind k = Some d \<longrightarrow> d \<noteq> ''''"
    by (auto simp: AllHistoryKind_def kind_defs split: if_splits)
  have w: "Valid ''workload''" "\<not> Valid ''bogus''"
    by (simp_all add: v)
  show ?thesis
    using v [of k] d c n w by simp
qed

theorem HistoryKind_Valid_AllHistoryKind_witness:
  "AllHistoryKind ''machine'' = Some ''statuses that occur due to provisioning of a machine'' \<and>
   ''statuses that occur due to provisioning of a machine'' \<noteq> '''' \<and>
   Valid ''machine'' \<and> ''machine'' \<in> dom AllHistoryKind"
  using HistoryKind_Valid_AllHistoryKind [of "''machine''"]
  by (simp add: AllHistoryKind_def kind_defs)

subsection \<open>The sliding window\<close>

lemma index_in: "0 \<le> i \<Longrightarrow> i < int (length xs) \<Longrightarrow> index xs i = Inr (xs ! nat i)"
  by (simp add: index_def)

lemma store_in: "0 \<le> i \<Longrightarrow> i < int (length xs) \<Longrightarrow> store xs i v = Inr (xs[nat i := v])"
  by (simp add: store_def)

lemma push_shift_eq:
  "0 \<le> i \<Longrightarrow> i < int (length ch) \<Longrightarrow>
   push_shift ch i = Inr (take (nat i) ch @ drop (nat i + 1) ch @ [last ch])"
proof (induction ch i rule: push_shift.induct)
  case (1 ch i)
  define n where "n = nat i"
  have i: "i = int n" and n: "n < length ch" using "1.prems" by (auto simp: n_def)
  show ?case
  proof (cases "i < int (length ch) - 1")
    case False
    with n i have nl: "n = length ch - 1" by linarith
    moreover have "ch \<noteq> []" using n by auto
    ultimately have "take n ch @ [last ch] = ch"
      using append_butlast_last_id [of ch] by (simp add: butlast_conv_take)
    moreover have "drop (Suc n) ch = []" using nl by simp
    ultimately show ?thesis using False
      by (subst push_shift.simps) (simp add: n_def [symmetric])
  next
    case True
    then have n1: "Suc n < length ch" using i by linarith
    let ?ch' = "ch[n := ch ! Suc n]"
    have ix: "index ch (i + 1) = Inr (ch ! Suc n)"
      using n1 i by (simp add: index_def nat_add_distrib)
    have st: "store ch i (ch ! Suc n) = Inr ?ch'"
      using n i by (simp add: store_def)
    have ih: "push_shift ?ch' (i + 1) =
        Inr (take (nat (i + 1)) ?ch' @ drop (nat (i + 1) + 1) ?ch' @ [last ?ch'])"
      using "1.IH" [OF True ix st] n1 i by simp
    have ni: "nat (i + 1) = Suc n" using i by simp
    have l: "last ?ch' = last ch"
      using n1 by (cases "ch = []") (auto simp: last_list_update)
    have t: "take (Suc n) ?ch' = take n ch @ [ch ! Suc n]"
      using n by (simp add: take_Suc_conv_app_nth)
    have d: "drop (Suc n) ch = ch ! Suc n # drop (Suc (Suc n)) ch"
      using n1 by (simp add: Cons_nth_drop_Suc)
    show ?thesis
      using True by (subst push_shift.simps) (simp add: ix st ih ni l t d n_def [symmetric])
  qed
qed

lemma push_eq: "ch \<noteq> [] \<Longrightarrow> push ch new = Inr (hd ch, tl ch @ [new])"
proof -
  assume ne: "ch \<noteq> []"
  then obtain x xs where ch: "ch = x # xs" by (cases ch) auto
  have s: "push_shift (x # xs) 0 = Inr (xs @ [last (x # xs)])"
    using push_shift_eq [of 0 "x # xs"] by simp
  show ?thesis
    by (simp add: push_def index_def s store_def ch list_update_append)
qed

lemma push_empty: "push [] new = Inl IndexOutOfRange"
  by (simp add: push_def index_def)

text \<open>
  C5. On a non-empty window \<^verbatim>\<open>push\<close> returns the element at index 0, moves every other
  element one position toward index 0, writes the new record into the last slot and keeps
  the length; on \<open>[A, B, C]\<close> with \<open>D\<close> it returns \<open>A\<close> and leaves \<open>[B, C, D]\<close>.
\<close>

theorem push_evicts_oldest:
  "ch \<noteq> [] \<Longrightarrow>
   (\<exists>w. push ch new = Inr (ch ! 0, w) \<and> length w = length ch \<and>
        (\<forall>j. j + 1 < length ch \<longrightarrow> w ! j = ch ! (j + 1)) \<and>
        w ! (length ch - 1) = new) \<and>
   push [A, B, C] D = Inr (A, [B, C, D])"
proof -
  assume ne: "ch \<noteq> []"
  have "\<forall>j. j + 1 < length ch \<longrightarrow> (tl ch @ [new]) ! j = ch ! (j + 1)"
    using ne by (auto simp: nth_append nth_tl)
  moreover have "(tl ch @ [new]) ! (length ch - 1) = new"
    by (simp add: nth_append)
  moreover have "hd ch = ch ! 0"
    using ne by (simp add: hd_conv_nth)
  moreover have "push [A, B, C] D = Inr (A, [B, C, D])"
    by (simp add: push_eq)
  ultimately show ?thesis
    using ne by (simp add: push_eq)
qed

theorem push_evicts_oldest_witness:
  "[''a'', ''b'', ''c''] \<noteq> [] \<and> push [''a'', ''b'', ''c''] ''d'' = Inr (''a'', [''b'', ''c'', ''d''])"
  using push_evicts_oldest [of "[''a'', ''b'', ''c'']" "''d''" "''a''" "''b''" "''c''" "''d''"]
  by simp

subsection \<open>The loops of SquashLogs\<close>

lemma seed_buffer_eq:
  "0 \<le> i \<Longrightarrow> i \<le> cycleSize \<Longrightarrow> cycleSize \<le> int (length statuses) \<Longrightarrow>
   seed_buffer statuses cycleSize buffer i =
     Inr (buffer @ take (nat (cycleSize - i)) (drop (nat i) statuses))"
proof (induction statuses cycleSize buffer i rule: seed_buffer.induct)
  case (1 statuses cycleSize buffer i)
  show ?case
  proof (cases "i < cycleSize")
    case False
    then show ?thesis using "1.prems" by (subst seed_buffer.simps) simp
  next
    case True
    have ix: "index statuses i = Inr (statuses ! nat i)"
      using True "1.prems" by (simp add: index_def)
    have ih: "seed_buffer statuses cycleSize (buffer @ [statuses ! nat i]) (i + 1) =
        Inr ((buffer @ [statuses ! nat i]) @
             take (nat (cycleSize - (i + 1))) (drop (nat (i + 1)) statuses))"
      using "1.IH" [OF True ix] True "1.prems" by simp
    have n: "nat (cycleSize - i) = Suc (nat (cycleSize - (i + 1)))" "nat (i + 1) = Suc (nat i)"
      using True "1.prems" by linarith+
    have lt: "nat i < length statuses" using True "1.prems" by linarith
    have d: "drop (nat i) statuses = statuses ! nat i # drop (Suc (nat i)) statuses"
      using lt by (simp add: Cons_nth_drop_Suc)
    show ?thesis
      using True by (subst seed_buffer.simps) (simp add: ix ih n d)
  qed
qed

lemma seed_buffer_neg: "cycleSize \<le> 0 \<Longrightarrow> seed_buffer statuses cycleSize [] 0 = Inr []"
  by (subst seed_buffer.simps) simp

lemma is_repetition_eq:
  "0 \<le> j \<Longrightarrow> length chunk \<le> length buffer \<Longrightarrow>
   is_repetition chunk buffer j repetition =
     Inr (repetition \<and> list_all2 matches (drop (nat j) chunk) (take (length chunk - nat j) (drop (nat j) buffer)))"
proof (induction chunk buffer j repetition rule: is_repetition.induct)
  case (1 chunk buffer j repetition)
  show ?case
  proof (cases "j < int (length chunk)")
    case False
    then show ?thesis using "1.prems" by (subst is_repetition.simps) simp
  next
    case True
    have lt: "nat j < length chunk" "nat j < length buffer" using True "1.prems" by linarith+
    have ixc: "index chunk j = Inr (chunk ! nat j)"
      using True "1.prems" by (simp add: index_def)
    have ixb: "index buffer j = Inr (buffer ! nat j)"
      using True "1.prems" by (simp add: index_def)
    define r where "r = (if Status (chunk ! nat j) \<noteq> Status (buffer ! nat j) \<or>
        Info (chunk ! nat j) \<noteq> Info (buffer ! nat j) then False else repetition)"
    have r: "r = (repetition \<and> matches (chunk ! nat j) (buffer ! nat j))"
      by (auto simp: r_def matches_def)
    have ih: "is_repetition chunk buffer (j + 1) r =
        Inr (r \<and> list_all2 matches (drop (nat (j + 1)) chunk)
                     (take (length chunk - nat (j + 1)) (drop (nat (j + 1)) buffer)))"
      unfolding r_def using "1.IH" [OF True ixc ixb] "1.prems" by simp
    have step: "is_repetition chunk buffer j repetition = is_repetition chunk buffer (j + 1) r"
      using True by (subst is_repetition.simps) (simp add: ixc ixb r_def)
    have n: "nat (j + 1) = Suc (nat j)" using "1.prems" by linarith
    have dc: "drop (nat j) chunk = chunk ! nat j # drop (Suc (nat j)) chunk"
      using lt by (simp add: Cons_nth_drop_Suc)
    have db: "drop (nat j) buffer = buffer ! nat j # drop (Suc (nat j)) buffer"
      using lt by (simp add: Cons_nth_drop_Suc)
    have l: "length chunk - nat j = Suc (length chunk - Suc (nat j))"
      using lt by linarith
    show ?thesis
      unfolding step ih by (auto simp: r n dc db l)
  qed
qed

lemma is_repetition_window:
  "length chunk = length buffer \<Longrightarrow>
   is_repetition chunk buffer 0 True = Inr (list_all2 matches chunk buffer)"
  using is_repetition_eq [of 0 chunk buffer True] by simp


lemma push_subset_eq:
  "0 \<le> j \<Longrightarrow> j \<le> cycleSize \<Longrightarrow> length chunk = nat cycleSize \<Longrightarrow>
   length buffer = nat cycleSize \<Longrightarrow>
   push_subset chunk cycleSize buffer result j =
     Inr (drop (nat (cycleSize - j)) buffer @ take (nat (cycleSize - j)) (drop (nat j) chunk),
          result @ take (nat (cycleSize - j)) buffer)"
proof (induction chunk cycleSize buffer result j rule: push_subset.induct)
  case (1 chunk cycleSize buffer result j)
  show ?case
  proof (cases "j < cycleSize")
    case False
    then show ?thesis using "1.prems" by (subst push_subset.simps) simp
  next
    case True
    define m where "m = nat (cycleSize - (j + 1))"
    have lt: "nat j < length chunk" using True "1.prems" by linarith
    have ne: "buffer \<noteq> []" using True "1.prems" by auto
    then obtain b bs where buffer: "buffer = b # bs" by (cases buffer) auto
    have ix: "index chunk j = Inr (chunk ! nat j)"
      using True "1.prems" by (simp add: index_def)
    have pu: "push buffer (chunk ! nat j) = Inr (b, bs @ [chunk ! nat j])"
      using push_eq [OF ne] by (simp add: buffer)
    have ih: "push_subset chunk cycleSize (bs @ [chunk ! nat j]) (result @ [b]) (j + 1) =
        Inr (drop m (bs @ [chunk ! nat j]) @ take m (drop (nat (j + 1)) chunk),
             (result @ [b]) @ take m (bs @ [chunk ! nat j]))"
      unfolding m_def using "1.IH" [OF True ix pu refl] True "1.prems" by (simp add: buffer)
    have pu': "push (b # bs) (chunk ! nat j) = Inr (b, bs @ [chunk ! nat j])"
      using pu by (simp add: buffer)
    have n: "nat (cycleSize - j) = Suc m" "nat (j + 1) = Suc (nat j)"
      using True "1.prems" unfolding m_def by linarith+
    have mb: "m \<le> length bs" using "1.prems" True by (simp add: buffer m_def)
    have d: "drop (nat j) chunk = chunk ! nat j # drop (Suc (nat j)) chunk"
      using lt by (simp add: Cons_nth_drop_Suc)
    show ?thesis
      using True mb by (subst push_subset.simps) (simp add: ix pu' ih n d buffer)
  qed
qed

lemma push_subset_window:
  "0 \<le> cycleSize \<Longrightarrow> length chunk = nat cycleSize \<Longrightarrow> length buffer = nat cycleSize \<Longrightarrow>
   push_subset chunk cycleSize buffer result 0 = Inr (chunk, result @ buffer)"
  using push_subset_eq [of 0 cycleSize chunk buffer result] by simp

lemma flush_buffer_eq:
  "0 \<le> j \<Longrightarrow> j \<le> cycleSize \<Longrightarrow> length buffer = nat cycleSize \<Longrightarrow>
   flush_buffer buffer cycleSize result j = Inr (result @ drop (nat j) buffer)"
proof (induction buffer cycleSize result j rule: flush_buffer.induct)
  case (1 buffer cycleSize result j)
  show ?case
  proof (cases "j < cycleSize")
    case False
    then show ?thesis using "1.prems" by (subst flush_buffer.simps) simp
  next
    case True
    have lt: "nat j < length buffer" using True "1.prems" by linarith
    have ix: "index buffer j = Inr (buffer ! nat j)"
      using True "1.prems" by (simp add: index_def)
    have ih: "flush_buffer buffer cycleSize (result @ [buffer ! nat j]) (j + 1) =
        Inr ((result @ [buffer ! nat j]) @ drop (nat (j + 1)) buffer)"
      using "1.IH" [OF True ix] True "1.prems" by simp
    have n: "nat (j + 1) = Suc (nat j)" using "1.prems" by linarith
    have d: "drop (nat j) buffer = buffer ! nat j # drop (Suc (nat j)) buffer"
      using lt by (simp add: Cons_nth_drop_Suc)
    show ?thesis
      using True by (subst flush_buffer.simps) (simp add: ix ih n d)
  qed
qed

lemma flush_buffer_window:
  "0 \<le> cycleSize \<Longrightarrow> length buffer = nat cycleSize \<Longrightarrow>
   flush_buffer buffer cycleSize result 0 = Inr (result @ buffer)"
  using flush_buffer_eq [of 0 cycleSize buffer result] by simp

lemma walk_exit:
  "\<not> i < int (length statuses) \<or> int (length statuses) < i + cycleSize \<Longrightarrow>
   walk statuses cycleSize buffer result repeat i rs = Some (Inr (buffer, result, repeat, i, rs))"
  by (subst walk.simps) auto

lemma walk_step:
  assumes "1 \<le> cycleSize" "length buffer = nat cycleSize" "0 \<le> i"
    and "i + cycleSize \<le> int (length statuses)"
  shows "walk statuses cycleSize buffer result repeat i rs =
    (if list_all2 matches (chunk_at statuses i cycleSize) buffer
     then walk statuses cycleSize buffer result (repeat + 1) (i + cycleSize) rs
     else if 0 < repeat
     then walk statuses cycleSize (chunk_at statuses i cycleSize)
            (result @ buffer @ [rs\<lparr>Info := rstatus cycleSize repeat\<rparr>]) 0 (i + cycleSize)
            (rs\<lparr>Info := rstatus cycleSize repeat\<rparr>)
     else walk statuses cycleSize (tl buffer @ [statuses ! nat i]) (result @ [hd buffer]) repeat
            (i + 1) rs)"
proof -
  have lt: "i < int (length statuses)" using assms by linarith
  have sl: "slice statuses i (i + cycleSize) = Inr (chunk_at statuses i cycleSize)"
    using assms by (simp add: slice_def chunk_at_def)
  have len: "length (chunk_at statuses i cycleSize) = nat cycleSize"
    using assms by (simp add: chunk_at_def)
  have rep: "is_repetition (chunk_at statuses i cycleSize) buffer 0 True =
      Inr (list_all2 matches (chunk_at statuses i cycleSize) buffer)"
    using is_repetition_window len assms(2) by metis
  have ps: "push_subset (chunk_at statuses i cycleSize) cycleSize buffer result 0 =
      Inr (chunk_at statuses i cycleSize, result @ buffer)"
    using push_subset_window [OF _ len assms(2)] assms(1) by simp
  have ix: "index statuses i = Inr (statuses ! nat i)"
    using lt assms(3) by (simp add: index_def)
  have ne: "buffer \<noteq> []" using assms by auto
  have pu: "push buffer (statuses ! nat i) = Inr (hd buffer, tl buffer @ [statuses ! nat i])"
    using push_eq [OF ne] .
  show ?thesis
    using lt assms(4) by (subst walk.simps) (simp add: sl rep ps ix pu)
qed

lemma finish_eq:
  assumes "0 \<le> k" "length buffer = nat k" "0 \<le> i"
  shows "finish statuses k buffer result repeat i rs =
    Inr (result @ buffer @ (if 0 < repeat then [rs\<lparr>Info := rstatus k repeat\<rparr>] else []) @
         drop (nat i + 1) statuses)"
proof -
  have fl: "flush_buffer buffer k result 0 = Inr (result @ buffer)"
    using flush_buffer_window assms by blast
  show ?thesis
  proof (cases "i < int (length statuses) - 1")
    case True
    have n: "nat (i + 1) = nat i + 1" using assms by linarith
    have "slice statuses (i + 1) (int (length statuses)) = Inr (drop (nat i + 1) statuses)"
      using True assms by (simp add: slice_def n)
    then show ?thesis using True by (simp add: finish_def fl)
  next
    case False
    then have "drop (nat i + 1) statuses = []" using assms by simp
    then show ?thesis using False by (simp add: finish_def fl)
  qed
qed

text \<open>
  C8. When the input has at most \<open>cycleSize\<close> records, \<^verbatim>\<open>SquashLogs\<close> returns the input
  unchanged: no marker, no reordering. A \<open>cycleSize\<close> equal to the length of the input is
  such a case.
\<close>

theorem SquashLogs_short_circuit:
  "int (length statuses) \<le> cycleSize \<Longrightarrow> SquashLogs statuses cycleSize now = Some (Inr statuses)"
  by (simp add: SquashLogs_def)

theorem SquashLogs_short_circuit_witness:
  "int (length [repeatStatus0 1, repeatStatus0 2 :: unit DetailedStatus]) \<le> 2 \<and>
   SquashLogs [repeatStatus0 1, repeatStatus0 2 :: unit DetailedStatus] 2 9 =
     Some (Inr [repeatStatus0 1, repeatStatus0 2])"
  using SquashLogs_short_circuit [of "[repeatStatus0 1, repeatStatus0 2 :: unit DetailedStatus]" 2 9]
  by simp

subsection \<open>The walk: divergence for cycle size 0, return for every positive cycle size\<close>

lemma walk_diverges:
  assumes "0 \<le> i" "i < int (length statuses)"
  shows "walk statuses 0 buffer result repeat i rs = None"
proof (rule ccontr)
  assume "walk statuses 0 buffer result repeat i rs \<noteq> None"
  then obtain y where y: "walk statuses 0 buffer result repeat i rs = Some y" by auto
  have "\<not> (0 = (0::int) \<and> 0 \<le> i \<and> i < int (length statuses))"
  proof (rule walk.raw_induct [where P = "\<lambda>statuses k buffer result repeat i rs y.
      \<not> (k = (0::int) \<and> 0 \<le> i \<and> i < int (length statuses))", OF _ y], goal_cases)
    case (1 f statuses k buffer result repeat i rs y)
    show ?case
    proof
      assume a: "k = 0 \<and> 0 \<le> i \<and> i < int (length statuses)"
      have sl: "slice statuses i i = Inr []"
        using a by (simp add: slice_def)
      have rp: "is_repetition [] buffer 0 True = Inr True"
        by (subst is_repetition.simps) simp
      have "f statuses k buffer result (repeat + 1) i rs = Some y"
        using 1(2) a by (simp add: sl rp)
      from 1(1) [OF this] a show False by simp
    qed
  qed
  with assms show False by simp
qed

lemma SquashLogs_zero_diverges:
  "statuses \<noteq> [] \<Longrightarrow> SquashLogs statuses 0 now = None"
  by (simp add: SquashLogs_def seed_buffer_neg walk_diverges)

lemma SquashLogs_negative_panics:
  "cycleSize < 0 \<Longrightarrow> SquashLogs statuses cycleSize now = Some (Inl SliceBoundsOutOfRange)"
  by (simp add: SquashLogs_def seed_buffer_neg walk.simps slice_def)



subsection \<open>Repetition detection\<close>





subsection \<open>Markers\<close>




subsection \<open>Runs on concrete inputs\<close>

lemmas eval_defs = SquashLogs_def seed_buffer_eq walk_step walk_exit finish_eq chunk_at_def
  matches_def

text \<open>
  C2, as the claim states it: eight records, the third and fourth repeating the first and
  second, cycle size 2. The result is not the first four records, the marker and the last
  two.
\<close>

theorem SquashLogs_eight_records_counterexample:
  "SquashLogs [entry ''active'' ''a'' 1, entry ''active'' ''b'' 2, entry ''active'' ''a'' 3,
       entry ''active'' ''b'' 4, entry ''active'' ''c'' 5, entry ''active'' ''d'' 6,
       entry ''active'' ''e'' 7, entry ''active'' ''f'' 8] 2 9 \<noteq>
     Some (Inr [entry ''active'' ''a'' 1, entry ''active'' ''b'' 2, entry ''active'' ''a'' 3,
       entry ''active'' ''b'' 4,
       (repeatStatus0 9)\<lparr>Info := ''last 2 statuses repeated 1 times''\<rparr>,
       entry ''active'' ''e'' 7, entry ''active'' ''f'' 8])"
  by (simp add: eval_defs entry_def)

text \<open>
  C2, amended. For eight records where records 3 and 4 have the status and info of records
  1 and 2, records 5 and 6 do not repeat records 1 and 2, and records 7 and 8 do not repeat
  records 5 and 6, \<^verbatim>\<open>SquashLogs\<close> with cycle size 2 returns a sequence that starts with record
  1, record 2, the marker "last 2 statuses repeated 1 times", record 5, record 6, record 7.
\<close>

theorem SquashLogs_eight_records:
  assumes "Status r3 = Status r1 \<and> Info r3 = Info r1"
    and "Status r4 = Status r2 \<and> Info r4 = Info r2"
    and "\<not> (Status r5 = Status r1 \<and> Info r5 = Info r1 \<and> Status r6 = Status r2 \<and> Info r6 = Info r2)"
    and "\<not> (Status r7 = Status r5 \<and> Info r7 = Info r5 \<and> Status r8 = Status r6 \<and> Info r8 = Info r6)"
  shows "\<exists>rest. SquashLogs [r1, r2, r3, r4, r5, r6, r7, r8] 2 now =
     Some (Inr ([r1, r2, (repeatStatus0 now)\<lparr>Info := ''last 2 statuses repeated 1 times''\<rparr>,
                 r5, r6, r7] @ rest))"
proof -
  have r: "rstatus 2 1 = ''last 2 statuses repeated 1 times''"
    by (simp add: rstatus_def show_int_def show_nat.simps digit_char_def)
  show ?thesis
    using assms by (auto simp: eval_defs r)
qed

theorem SquashLogs_eight_records_witness:
  "SquashLogs [entry ''active'' ''a'' 1, entry ''active'' ''b'' 2, entry ''active'' ''a'' 3,
       entry ''active'' ''b'' 4, entry ''active'' ''c'' 5, entry ''active'' ''d'' 6,
       entry ''active'' ''e'' 7, entry ''active'' ''f'' 8] 2 9 =
     Some (Inr [entry ''active'' ''a'' 1, entry ''active'' ''b'' 2,
       (repeatStatus0 9)\<lparr>Info := ''last 2 statuses repeated 1 times''\<rparr>,
       entry ''active'' ''c'' 5, entry ''active'' ''d'' 6, entry ''active'' ''e'' 7])"
  using SquashLogs_eight_records [where ?r1.0 = "entry ''active'' ''a'' 1"
      and ?r2.0 = "entry ''active'' ''b'' 2" and ?r3.0 = "entry ''active'' ''a'' 3"
      and ?r4.0 = "entry ''active'' ''b'' 4" and ?r5.0 = "entry ''active'' ''c'' 5"
      and ?r6.0 = "entry ''active'' ''d'' 6" and ?r7.0 = "entry ''active'' ''e'' 7"
      and ?r8.0 = "entry ''active'' ''f'' 8" and now = 9]
  by (simp add: eval_defs entry_def rstatus_def show_int_def show_nat.simps digit_char_def)

text \<open>
  C1. Four records with distinct infos and cycle size 2: the one chunk that is compared is
  no repetition, and the result is the first three records, without the fourth.
\<close>

theorem SquashLogs_no_repetition_drops_last:
  "is_repetition [entry ''active'' ''c'' 3, entry ''active'' ''d'' 4]
     [entry ''active'' ''a'' 1, entry ''active'' ''b'' 2] 0 True = Inr False \<and>
   SquashLogs [entry ''active'' ''a'' 1, entry ''active'' ''b'' 2, entry ''active'' ''c'' 3,
       entry ''active'' ''d'' 4] 2 9 =
     Some (Inr [entry ''active'' ''a'' 1, entry ''active'' ''b'' 2, entry ''active'' ''c'' 3])"
  by (simp add: eval_defs is_repetition_window entry_def)

text \<open>
  C3. Five records with distinct infos and cycle size 3: the walk stops at once with the
  trailing partial chunk of records 4 and 5, and the result holds record 5 after the
  flushed buffer, without record 4.
\<close>

theorem SquashLogs_trailing_chunk_loses_first:
  "SquashLogs [entry ''active'' ''a'' 1, entry ''active'' ''b'' 2, entry ''active'' ''c'' 3,
       entry ''active'' ''d'' 4, entry ''active'' ''e'' 5] 3 9 =
     Some (Inr [entry ''active'' ''a'' 1, entry ''active'' ''b'' 2, entry ''active'' ''c'' 3,
       entry ''active'' ''e'' 5])"
  by (simp add: eval_defs entry_def)

subsection \<open>Calls outside the preconditions\<close>

text \<open>
  C9, as the claim states it: with cycle size 0 and one record the call neither panics nor
  returns.
\<close>

theorem precondition_violations_counterexample:
  "SquashLogs [entry ''active'' ''a'' 1] 0 9 = None"
  by (simp add: SquashLogs_zero_diverges)

text \<open>
  C9, amended. \<^verbatim>\<open>push\<close> on an empty window panics (index out of range). \<^verbatim>\<open>SquashLogs\<close> with a
  negative cycle size panics at the first chunk (slice bounds out of range), for every
  input. With cycle size 0 and a non-empty input there is no guard and the call does not
  return.
\<close>

theorem precondition_violations:
  "push [] new = Inl IndexOutOfRange \<and>
   (cycleSize < 0 \<longrightarrow> SquashLogs statuses cycleSize now = Some (Inl SliceBoundsOutOfRange)) \<and>
   (statuses \<noteq> [] \<longrightarrow> SquashLogs statuses 0 now = None)"
  by (simp add: push_empty SquashLogs_negative_panics SquashLogs_zero_diverges)

theorem precondition_violations_witness:
  "push [] (entry ''active'' ''a'' 1) = Inl IndexOutOfRange \<and>
   SquashLogs [entry ''active'' ''a'' 1] (- 1) 9 = Some (Inl SliceBoundsOutOfRange) \<and>
   SquashLogs [] (- 2) 9 = (Some (Inl SliceBoundsOutOfRange) :: (panic + string History) option) \<and>
   SquashLogs [entry ''active'' ''a'' 1, entry ''active'' ''b'' 2] 0 9 = None"
  using precondition_violations [of "entry ''active'' ''a'' 1" "- 1" "[entry ''active'' ''a'' 1]" 9]
    precondition_violations [of "entry ''active'' ''a'' 1" "- 2" "[] :: string History" 9]
    precondition_violations [of "entry ''active'' ''a'' 1" "- 1"
      "[entry ''active'' ''a'' 1, entry ''active'' ''b'' 2]" 9]
  by simp

end
